theory Spec2Isabelle
  imports Complex_Main "HOL-Library.Word"
begin

section \<open>JavaScript strings\<close>

text \<open>
  A JavaScript string is a sequence of 16-bit UTF-16 code units; \<open>length\<close>, regular
  expressions without the \<open>u\<close> flag, \<open>substring\<close> and \<open>trim\<close> all work on code units.
  \<open>js\<close> turns an ASCII literal of the source into such a sequence.
\<close>

type_synonym code_unit = "16 word"
type_synonym jsstring = "code_unit list"

definition js :: "string \<Rightarrow> jsstring" where
  "js s = map of_char s"

section \<open>Rewarded-ad session manager (AdProvider.tsx)\<close>

text \<open>
  The component state is the pair of \<open>useState\<close> cells \<open>rewardedAd\<close> and \<open>isAdReady\<close>.
  A \<open>RewardedAd\<close> is an opaque object handed over by the ad platform; only its identity
  matters.  Calls into the platform and into the browser are recorded, oldest first, in
  \<open>calls\<close>.  \<open>google_ad_platform\<close> says whether \<open>window.google_ad_platform\<close> is defined.
  The field \<open>app\<close> is the state of the rest of the application, on which the caller's
  \<open>onReward\<close> callback acts.  Console output is diagnostic only and is not modelled.
\<close>

datatype RewardedAd = RewardedAd nat

datatype platform_call =
    RequestRewardedAd jsstring
  | Show RewardedAd
  | Alert jsstring

record 'p ad_provider =
  rewardedAd :: "RewardedAd option"
  isAdReady :: bool
  google_ad_platform :: bool
  calls :: "platform_call list"
  app :: 'p

definition REWARDED_AD_UNIT_ID :: jsstring where
  "REWARDED_AD_UNIT_ID = js ''ca-pub-3510699448181207/1234567890''"

definition ad_provider_init :: "bool \<Rightarrow> 'p \<Rightarrow> 'p ad_provider" where
  "ad_provider_init present a =
     \<lparr>rewardedAd = None, isAdReady = False, google_ad_platform = present,
      calls = [], app = a\<rparr>"

definition preloadAd :: "'p ad_provider \<Rightarrow> 'p ad_provider" where
  "preloadAd s =
     (let s1 = s\<lparr>isAdReady := False\<rparr>
      in if google_ad_platform s1
         then s1\<lparr>calls := calls s1 @ [RequestRewardedAd REWARDED_AD_UNIT_ID]\<rparr>
         else s1)"

text \<open>The two callbacks that \<open>preloadAd\<close> hands to \<open>requestRewardedAd\<close>.\<close>

definition onAdLoaded :: "RewardedAd \<Rightarrow> 'p ad_provider \<Rightarrow> 'p ad_provider" where
  "onAdLoaded ad s = (s\<lparr>rewardedAd := Some ad\<rparr>)\<lparr>isAdReady := True\<rparr>"

definition onAdFailedToLoad :: "'p ad_provider \<Rightarrow> 'p ad_provider" where
  "onAdFailedToLoad s = s\<lparr>isAdReady := False\<rparr>"

text \<open>
  \<open>showRewardedAd\<close> either calls \<open>show\<close> on the stored ad, passing the two callbacks
  \<open>onUserEarnedReward\<close> and \<open>onAdClosed\<close>, or raises the alert.  The model returns the new
  state together with the callbacks now registered with the platform, if any.
\<close>

record 'p show_options =
  onUserEarnedReward :: "'p ad_provider \<Rightarrow> 'p ad_provider"
  onAdClosed :: "'p ad_provider \<Rightarrow> 'p ad_provider"

definition not_ready_notice :: jsstring where
  "not_ready_notice = js ''Ad is not ready yet. Please try again in a moment.''"

definition showRewardedAd ::
  "('p \<Rightarrow> 'p) \<Rightarrow> 'p ad_provider \<Rightarrow> 'p ad_provider \<times> 'p show_options option" where
  "showRewardedAd onReward s =
     (case rewardedAd s of
        Some ad \<Rightarrow>
          if isAdReady s
          then (s\<lparr>calls := calls s @ [Show ad]\<rparr>,
                Some \<lparr>onUserEarnedReward = (\<lambda>w. preloadAd (w\<lparr>app := onReward (app w)\<rparr>)),
                      onAdClosed = (\<lambda>w. preloadAd w)\<rparr>)
          else (s\<lparr>calls := calls s @ [Alert not_ready_notice]\<rparr>, None)
      | None \<Rightarrow> (s\<lparr>calls := calls s @ [Alert not_ready_notice]\<rparr>, None))"

text \<open>
  The events that drive the manager: a preload (from the mount effect, the script's
  \<open>onLoad\<close>, or a show callback), the platform's two load callbacks, a call of
  \<open>showRewardedAd\<close>, and the platform's two show callbacks.
\<close>

datatype ad_event =
    Preload
  | AdLoaded RewardedAd
  | AdFailedToLoad
  | ShowRewardedAd
  | UserEarnedReward
  | AdClosed

fun ad_step :: "('p \<Rightarrow> 'p) \<Rightarrow> 'p ad_provider \<Rightarrow> ad_event \<Rightarrow> 'p ad_provider" where
  "ad_step onReward s Preload = preloadAd s"
| "ad_step onReward s (AdLoaded ad) = onAdLoaded ad s"
| "ad_step onReward s AdFailedToLoad = onAdFailedToLoad s"
| "ad_step onReward s ShowRewardedAd = fst (showRewardedAd onReward s)"
| "ad_step onReward s UserEarnedReward = preloadAd (s\<lparr>app := onReward (app s)\<rparr>)"
| "ad_step onReward s AdClosed = preloadAd s"

definition ad_run :: "('p \<Rightarrow> 'p) \<Rightarrow> 'p ad_provider \<Rightarrow> ad_event list \<Rightarrow> 'p ad_provider" where
  "ad_run onReward s es = foldl (ad_step onReward) s es"

text \<open>The ad delivered by the last load-success event of a sequence, if there is one.\<close>

fun last_loaded :: "ad_event list \<Rightarrow> RewardedAd option" where
  "last_loaded [] = None"
| "last_loaded (AdLoaded ad # es) =
     (case last_loaded es of None \<Rightarrow> Some ad | Some later \<Rightarrow> Some later)"
| "last_loaded (e # es) = last_loaded es"

definition requests :: "'p ad_provider \<Rightarrow> nat" where
  "requests s = length (filter (\<lambda>c. case c of RequestRewardedAd _ \<Rightarrow> True | _ \<Rightarrow> False) (calls s))"

definition show_calls :: "'p ad_provider \<Rightarrow> nat" where
  "show_calls s = length (filter (\<lambda>c. case c of Show _ \<Rightarrow> True | _ \<Rightarrow> False) (calls s))"

section \<open>Unlock Gate (UnlockProModal in page.tsx)\<close>

text \<open>
  The modal has the prop \<open>isOpen\<close> and the two \<open>useState\<close> cells \<open>countdown\<close> (a
  JavaScript number that only ever holds the integers 0 to 15) and \<open>isAdLoaded\<close>.  Its
  effect, keyed on \<open>isOpen\<close>, creates three browser timers and returns a cleanup closure
  that holds their three identifiers.  \<open>timers\<close> is the browser's list of pending timers
  (identifier and callback), \<open>next_timer_id\<close> the next unused identifier, \<open>cleanup\<close> the
  identifiers captured by the cleanup closure of the effect that is currently mounted.
  Time is not modelled: any pending timer may fire next, which covers every schedule the
  browser can produce.
\<close>

datatype timer_callback = InitTimer | Interval | AdLoadTimer

record modal =
  isOpen :: bool
  countdown :: int
  isAdLoaded :: bool
  timers :: "(nat \<times> timer_callback) list"
  next_timer_id :: nat
  cleanup :: "(nat \<times> nat \<times> nat) option"

definition modal_init :: "nat \<Rightarrow> modal" where
  "modal_init n =
     \<lparr>isOpen = False, countdown = 15, isAdLoaded = False, timers = [],
      next_timer_id = n, cleanup = None\<rparr>"

text \<open>\<open>setTimeout\<close> and \<open>setInterval\<close> draw their identifiers from one pool.\<close>

definition setTimer :: "timer_callback \<Rightarrow> modal \<Rightarrow> nat \<times> modal" where
  "setTimer k m =
     (next_timer_id m,
      m\<lparr>timers := timers m @ [(next_timer_id m, k)], next_timer_id := Suc (next_timer_id m)\<rparr>)"

definition clearTimer :: "nat \<Rightarrow> modal \<Rightarrow> modal" where
  "clearTimer i m = m\<lparr>timers := filter (\<lambda>t. fst t \<noteq> i) (timers m)\<rparr>"

text \<open>The body of the effect when \<open>isOpen\<close> is true, and the cleanup it returns.\<close>

definition effect_run :: "modal \<Rightarrow> modal" where
  "effect_run m =
     (let (initTimer, m1) = setTimer InitTimer m;
          (interval, m2) = setTimer Interval m1;
          (adLoadTimer, m3) = setTimer AdLoadTimer m2
      in m3\<lparr>cleanup := Some (initTimer, interval, adLoadTimer)\<rparr>)"

definition effect_cleanup :: "modal \<Rightarrow> modal" where
  "effect_cleanup m =
     (case cleanup m of
        None \<Rightarrow> m
      | Some (initTimer, interval, adLoadTimer) \<Rightarrow>
          (clearTimer adLoadTimer (clearTimer interval (clearTimer initTimer m)))
            \<lparr>isAdLoaded := False, cleanup := None\<rparr>)"

text \<open>
  A change of the prop: React runs the cleanup of the previous effect, then the effect
  again.  An unchanged prop does not re-run the effect.
\<close>

definition setOpen :: "bool \<Rightarrow> modal \<Rightarrow> modal" where
  "setOpen b m =
     (if b = isOpen m then m
      else let m1 = effect_cleanup (m\<lparr>isOpen := b\<rparr>)
           in if b then effect_run m1 else m1)"

text \<open>
  A pending timer fires.  The two timeouts are one-shot; the interval stays pending until
  its own callback clears it, when the countdown it sees is at most 1.
\<close>

definition fire :: "nat \<Rightarrow> modal \<Rightarrow> modal" where
  "fire i m =
     (case map_of (timers m) i of
        None \<Rightarrow> m
      | Some InitTimer \<Rightarrow> (clearTimer i m)\<lparr>countdown := 15\<rparr>
      | Some Interval \<Rightarrow>
          (if countdown m \<le> 1 then (clearTimer i m)\<lparr>countdown := 0\<rparr>
           else m\<lparr>countdown := countdown m - 1\<rparr>)
      | Some AdLoadTimer \<Rightarrow> (clearTimer i m)\<lparr>isAdLoaded := True\<rparr>)"

datatype modal_event = SetOpen bool | Fire nat

fun modal_step :: "modal \<Rightarrow> modal_event \<Rightarrow> modal" where
  "modal_step m (SetOpen b) = setOpen b m"
| "modal_step m (Fire i) = fire i m"

definition modal_run :: "modal \<Rightarrow> modal_event list \<Rightarrow> modal" where
  "modal_run m es = foldl modal_step m es"

text \<open>What the component renders: nothing when closed, else the unlock button.\<close>

datatype button_label = UnlockAndDownload | PleaseWait int

record modal_view =
  unlock_disabled :: bool
  unlock_label :: button_label

definition isUnlockable :: "modal \<Rightarrow> bool" where
  "isUnlockable m = (countdown m = 0 \<and> isAdLoaded m)"

definition UnlockProModal :: "modal \<Rightarrow> modal_view option" where
  "UnlockProModal m =
     (if \<not> isOpen m then None
      else Some \<lparr>unlock_disabled = \<not> isUnlockable m,
                 unlock_label = (if isUnlockable m then UnlockAndDownload
                                 else PleaseWait (countdown m))\<rparr>)"

text \<open>
  The invariant of the modal's reachable states: every pending timer has an identifier
  that was already handed out; while an effect is mounted the modal is open and every
  pending timer is one of the three its cleanup holds; otherwise the modal is closed,
  no timer is pending and the ad-loaded flag is false.
\<close>

definition modal_inv :: "modal \<Rightarrow> bool" where
  "modal_inv m =
     (list_all (\<lambda>t. fst t < next_timer_id m) (timers m) \<and>
      (case cleanup m of
         Some (a, b, c) \<Rightarrow> isOpen m \<and> list_all (\<lambda>t. fst t = a \<or> fst t = b \<or> fst t = c) (timers m)
       | None \<Rightarrow> \<not> isOpen m \<and> timers m = [] \<and> \<not> isAdLoaded m))"

section \<open>Data model (types.ts)\<close>

text \<open>\<open>size_mb\<close> is a JavaScript number or null; no function modelled here reads it.\<close>

record FormatInfo =
  quality :: jsstring
  ext :: jsstring
  size_mb :: "real option"
  is_premium :: bool
  format_id :: jsstring

record AnalyzeResponse =
  title :: jsstring
  thumbnail :: "jsstring option"
  formats :: "FormatInfo list"
  original_url :: jsstring

section \<open>The built-in encodeURIComponent\<close>

text \<open>
  ECMAScript's \<open>encodeURIComponent\<close>: a code unit of the unreserved set (letters,
  digits and \<open>- _ . ! ~ * ' ( )\<close>) is kept; any other code point is written as the
  \<open>%XX\<close> escapes of its UTF-8 octets, in upper-case hexadecimal.  A surrogate code unit
  that is not part of a lead-trail pair makes the function throw \<open>URIError\<close>.
\<close>

datatype js_error = URIError

definition unescaped :: "code_unit \<Rightarrow> bool" where
  "unescaped c =
     ((0x41 \<le> c \<and> c \<le> 0x5A) \<or> (0x61 \<le> c \<and> c \<le> 0x7A) \<or> (0x30 \<le> c \<and> c \<le> 0x39) \<or>
      c \<in> set [0x2D, 0x5F, 0x2E, 0x21, 0x7E, 0x2A, 0x27, 0x28, 0x29])"

definition is_lead :: "code_unit \<Rightarrow> bool" where
  "is_lead c = (0xD800 \<le> c \<and> c \<le> 0xDBFF)"

definition is_trail :: "code_unit \<Rightarrow> bool" where
  "is_trail c = (0xDC00 \<le> c \<and> c \<le> 0xDFFF)"

definition code_point_pair :: "code_unit \<Rightarrow> code_unit \<Rightarrow> nat" where
  "code_point_pair c d = 0x10000 + (unat c - 0xD800) * 0x400 + (unat d - 0xDC00)"

definition utf8 :: "nat \<Rightarrow> nat list" where
  "utf8 n =
     (if n < 0x80 then [n]
      else if n < 0x800 then [0xC0 + n div 0x40, 0x80 + n mod 0x40]
      else if n < 0x10000 then
        [0xE0 + n div 0x1000, 0x80 + (n div 0x40) mod 0x40, 0x80 + n mod 0x40]
      else [0xF0 + n div 0x40000, 0x80 + (n div 0x1000) mod 0x40,
            0x80 + (n div 0x40) mod 0x40, 0x80 + n mod 0x40])"

definition hex_digit :: "nat \<Rightarrow> code_unit" where
  "hex_digit n = (if n < 10 then of_nat (0x30 + n) else of_nat (0x41 + (n - 10)))"

definition percent :: "nat \<Rightarrow> jsstring" where
  "percent b = [0x25, hex_digit (b div 16), hex_digit (b mod 16)]"

definition escape :: "nat \<Rightarrow> jsstring" where
  "escape n = concat (map percent (utf8 n))"

fun encodeURIComponent :: "jsstring \<Rightarrow> js_error + jsstring" where
  "encodeURIComponent [] = Inr []"
| "encodeURIComponent (c # cs) =
     (if unescaped c then
        (case encodeURIComponent cs of Inl e \<Rightarrow> Inl e | Inr r \<Rightarrow> Inr (c # r))
      else if is_lead c then
        (case cs of
           [] \<Rightarrow> Inl URIError
         | d # ds \<Rightarrow>
             if is_trail d then
               (case encodeURIComponent ds of
                  Inl e \<Rightarrow> Inl e
                | Inr r \<Rightarrow> Inr (escape (code_point_pair c d) @ r))
             else Inl URIError)
      else if is_trail c then Inl URIError
      else (case encodeURIComponent cs of
              Inl e \<Rightarrow> Inl e
            | Inr r \<Rightarrow> Inr (escape (unat c) @ r)))"

text \<open>What an encoded component is made of: unreserved code units and the percent sign.\<close>

definition uri_safe :: "code_unit \<Rightarrow> bool" where
  "uri_safe c = (unescaped c \<or> c = 0x25)"

text \<open>A string is well formed when every surrogate code unit is part of a lead-trail pair.\<close>

fun well_formed :: "jsstring \<Rightarrow> bool" where
  "well_formed [] = True"
| "well_formed [c] = (\<not> is_lead c \<and> \<not> is_trail c)"
| "well_formed (c # d # ds) =
     (if is_lead c then is_trail d \<and> well_formed ds
      else \<not> is_trail c \<and> well_formed (d # ds))"

section \<open>Page Controller (Home in page.tsx)\<close>

text \<open>
  The environment of the page: the build-time variable \<open>NEXT_PUBLIC_API_URL\<close>, and the
  messages that the JavaScript engine gives two \<open>TypeError\<close>s: the one raised by reading
  a property of \<open>null\<close>, and the one raised when an object cannot be converted to a
  primitive value.
\<close>

record env =
  NEXT_PUBLIC_API_URL :: "jsstring option"
  null_read_message :: jsstring
  to_primitive_message :: jsstring

definition API_URL :: "env \<Rightarrow> jsstring" where
  "API_URL e =
     (case NEXT_PUBLIC_API_URL e of
        None \<Rightarrow> js ''http://localhost:8000''
      | Some u \<Rightarrow> if u = [] then js ''http://localhost:8000'' else u)"

text \<open>
  The component state: the \<open>useState\<close> cells of \<open>Home\<close>, and \<open>location_href\<close>, the values
  assigned to \<open>window.location.href\<close> (the navigations), oldest first.
\<close>

record page =
  url :: jsstring
  loading :: bool
  error :: "jsstring option"
  results :: "AnalyzeResponse option"
  isModalOpen :: bool
  selectedFormat :: "FormatInfo option"
  location_href :: "jsstring list"

text \<open>
  The source's \<open>_handleDownload\<close>.  It returns at once when no analysis result is held;
  it throws where \<open>encodeURIComponent\<close> does, before anything is assigned.
\<close>

definition handleDownload :: "env \<Rightarrow> FormatInfo \<Rightarrow> page \<Rightarrow> js_error + page" where
  "handleDownload e format p =
     (case results p of
        None \<Rightarrow> Inr p
      | Some r \<Rightarrow>
         (case encodeURIComponent (original_url r) of Inl x \<Rightarrow> Inl x | Inr encodedUrl \<Rightarrow>
          case encodeURIComponent (format_id format) of Inl x \<Rightarrow> Inl x | Inr encodedFormatId \<Rightarrow>
          case encodeURIComponent (title r) of Inl x \<Rightarrow> Inl x | Inr encodedTitle \<Rightarrow>
          case encodeURIComponent (ext format) of Inl x \<Rightarrow> Inl x | Inr encodedExt \<Rightarrow>
          case encodeURIComponent (quality format) of Inl x \<Rightarrow> Inl x | Inr encodedQuality \<Rightarrow>
            Inr (p\<lparr>location_href := location_href p @
                   [API_URL e @ js ''/api/download?url='' @ encodedUrl @
                    js ''&format_id='' @ encodedFormatId @
                    js ''&title='' @ encodedTitle @
                    js ''&ext='' @ encodedExt @
                    js ''&quality='' @ encodedQuality]\<rparr>)))"

definition handleFormatClick :: "env \<Rightarrow> FormatInfo \<Rightarrow> page \<Rightarrow> js_error + page" where
  "handleFormatClick e format p =
     (if is_premium format
      then Inr ((p\<lparr>selectedFormat := Some format\<rparr>)\<lparr>isModalOpen := True\<rparr>)
      else handleDownload e format p)"

definition handleUnlockRequest :: "env \<Rightarrow> page \<Rightarrow> js_error + page" where
  "handleUnlockRequest e p =
     (case selectedFormat p of
        None \<Rightarrow> Inr p
      | Some f \<Rightarrow>
          (case handleDownload e f p of
             Inl x \<Rightarrow> Inl x
           | Inr p1 \<Rightarrow> Inr ((p1\<lparr>isModalOpen := False\<rparr>)\<lparr>selectedFormat := None\<rparr>)))"

definition onClose :: "page \<Rightarrow> page" where
  "onClose p = (p\<lparr>isModalOpen := False\<rparr>)\<lparr>selectedFormat := None\<rparr>"

subsection \<open>The analysis request (handleFetch)\<close>

text \<open>
  A parsed JSON body, as \<open>response.json()\<close> returns it.  A repeated key of an object
  keeps its last value.  A number is given by what the handler can observe of it: whether
  it is zero, and the text that string conversion gives it.
\<close>

datatype json =
    JNull
  | JBool bool
  | JNumber bool jsstring
  | JString jsstring
  | JArray "json list"
  | JObject "(jsstring \<times> json) list"

text \<open>
  A thrown value, as the \<open>catch\<close> block tells them apart: an \<open>Error\<close> object with its
  message, a string, or anything else.
\<close>

datatype js_thrown = ErrorObject jsstring | ThrownString jsstring | ThrownOther

text \<open>
  How the \<open>fetch\<close> ends: the promise rejects (network failure), or a response arrives
  with \<open>response.ok\<close> false or true, whose \<open>json()\<close> in turn throws or yields a value.
  A successful body is taken at its declared type \<open>AnalyzeResponse\<close>.
\<close>

datatype fetch_outcome =
    Rejected js_thrown
  | NotOk "js_thrown + json"
  | Ok "js_thrown + AnalyzeResponse"

text \<open>
  Truthiness and string conversion of a JSON value, as \<open>new Error(detail)\<close> converts its
  argument.  An array joins the conversions of its elements, left to right, \<open>null\<close>
  counting as the empty string.  An object is converted by its \<open>toString\<close> method:
  the inherited one gives \<open>[object Object]\<close>, but a key \<open>toString\<close> of the body hides it
  with a value that is not callable, and then the conversion throws a \<open>TypeError\<close>.
\<close>

fun truthy :: "json \<Rightarrow> bool" where
  "truthy JNull = False"
| "truthy (JBool b) = b"
| "truthy (JNumber zero text) = (\<not> zero)"
| "truthy (JString s) = (s \<noteq> [])"
| "truthy (JArray xs) = True"
| "truthy (JObject kvs) = True"

fun join :: "jsstring list \<Rightarrow> jsstring" where
  "join [] = []"
| "join [s] = s"
| "join (s # t # ts) = s @ 0x2C # join (t # ts)"

fun ToString :: "jsstring \<Rightarrow> json \<Rightarrow> js_thrown + jsstring"
  and ToString_elements :: "jsstring \<Rightarrow> json list \<Rightarrow> js_thrown + jsstring list" where
  "ToString msg JNull = Inr (js ''null'')"
| "ToString msg (JBool b) = Inr (if b then js ''true'' else js ''false'')"
| "ToString msg (JNumber zero text) = Inr text"
| "ToString msg (JString s) = Inr s"
| "ToString msg (JArray xs) =
     (case ToString_elements msg xs of Inl x \<Rightarrow> Inl x | Inr ss \<Rightarrow> Inr (join ss))"
| "ToString msg (JObject kvs) =
     (if js ''toString'' \<in> set (map fst kvs) then Inl (ErrorObject msg)
      else Inr (js ''[object Object]''))"
| "ToString_elements msg [] = Inr []"
| "ToString_elements msg (x # xs) =
     (case (case x of JNull \<Rightarrow> Inr [] | _ \<Rightarrow> ToString msg x) of
        Inl e \<Rightarrow> Inl e
      | Inr s \<Rightarrow>
          (case ToString_elements msg xs of Inl e \<Rightarrow> Inl e | Inr ss \<Rightarrow> Inr (s # ss)))"

text \<open>Reading \<open>errorData.detail\<close>: \<open>None\<close> is \<open>undefined\<close>.\<close>

definition get_detail :: "jsstring \<Rightarrow> json \<Rightarrow> js_thrown + json option" where
  "get_detail null_msg errorData =
     (case errorData of
        JNull \<Rightarrow> Inl (ErrorObject null_msg)
      | JObject kvs \<Rightarrow> Inr (map_of (rev kvs) (js ''detail''))
      | _ \<Rightarrow> Inr None)"

definition unknown_error_message :: jsstring where
  "unknown_error_message = js ''An unknown error occurred.''"

definition connect_error_message :: jsstring where
  "connect_error_message = js ''Failed to connect to the backend. Is it running?''"

text \<open>The \<open>try\<close> block: the value it produces, or the value it throws.\<close>

definition handleFetch_try :: "env \<Rightarrow> fetch_outcome \<Rightarrow> js_thrown + AnalyzeResponse" where
  "handleFetch_try e outcome =
     (case outcome of
        Rejected x \<Rightarrow> Inl x
      | NotOk body \<Rightarrow>
          (case body of
             Inl x \<Rightarrow> Inl x
           | Inr errorData \<Rightarrow>
               (case get_detail (null_read_message e) errorData of
                  Inl x \<Rightarrow> Inl x
                | Inr None \<Rightarrow> Inl (ErrorObject unknown_error_message)
                | Inr (Some d) \<Rightarrow>
                    if truthy d then
                      (case ToString (to_primitive_message e) d of
                         Inl x \<Rightarrow> Inl x
                       | Inr message \<Rightarrow> Inl (ErrorObject message))
                    else Inl (ErrorObject unknown_error_message)))
      | Ok body \<Rightarrow> body)"

text \<open>
  The whole handler, once the request has settled: the three resets before the request,
  the \<open>try\<close> block, the \<open>catch\<close> block and the \<open>finally\<close> block.
\<close>

definition handleFetch :: "env \<Rightarrow> fetch_outcome \<Rightarrow> page \<Rightarrow> page" where
  "handleFetch e outcome p =
     (let p1 = ((p\<lparr>loading := True\<rparr>)\<lparr>error := None\<rparr>)\<lparr>results := None\<rparr>;
          p2 = (case handleFetch_try e outcome of
                  Inr data \<Rightarrow> p1\<lparr>results := Some data\<rparr>
                | Inl (ErrorObject message) \<Rightarrow>
                    p1\<lparr>error := Some (if message = [] then connect_error_message else message)\<rparr>
                | Inl (ThrownString s) \<Rightarrow> p1\<lparr>error := Some s\<rparr>
                | Inl ThrownOther \<Rightarrow> p1\<lparr>error := Some connect_error_message\<rparr>)
      in p2\<lparr>loading := False\<rparr>)"

text \<open>The error text on the page: \<open>{error && <ErrorMessage message={error} />}\<close>.\<close>

definition displayed_error :: "page \<Rightarrow> jsstring option" where
  "displayed_error p =
     (case error p of None \<Rightarrow> None | Some m \<Rightarrow> if m = [] then None else Some m)"

section \<open>sanitizeFilename (utils.ts)\<close>

text \<open>
  The character class of the first regular expression, \<open>[<>:"/\\|?*\x00-\x1F]\<close>, and
  the white space of \<open>\s\<close> and of \<open>trim\<close> (ECMAScript's WhiteSpace and LineTerminator).
\<close>

definition illegal :: "code_unit \<Rightarrow> bool" where
  "illegal c =
     (c \<in> set [0x3C, 0x3E, 0x3A, 0x22, 0x2F, 0x5C, 0x7C, 0x3F, 0x2A] \<or> c \<le> 0x1F)"

definition is_space :: "code_unit \<Rightarrow> bool" where
  "is_space c =
     (c \<in> set [0x09, 0x0A, 0x0B, 0x0C, 0x0D, 0x20, 0xA0, 0x1680, 0x2028, 0x2029,
               0x202F, 0x205F, 0x3000, 0xFEFF] \<or>
      (0x2000 \<le> c \<and> c \<le> 0x200A))"

text \<open>\<open>replace(/\s+/g, ' ')\<close>: every maximal run of white space becomes one space.\<close>

function collapse_spaces :: "jsstring \<Rightarrow> jsstring" where
  "collapse_spaces [] = []"
| "collapse_spaces (c # cs) =
     (if is_space c then 0x20 # collapse_spaces (dropWhile is_space cs)
      else c # collapse_spaces cs)"
  by pat_completeness auto
termination
  by (relation "measure length") (auto simp: length_dropWhile_le less_Suc_eq_le)

definition trim :: "jsstring \<Rightarrow> jsstring" where
  "trim s = rev (dropWhile is_space (rev (dropWhile is_space s)))"

definition sanitizeFilename :: "jsstring \<Rightarrow> jsstring" where
  "sanitizeFilename name =
     (if name = [] then js ''untitled''
      else let sanitized = filter (\<lambda>c. \<not> illegal c) name;
               sanitized = trim (collapse_spaces sanitized);
               sanitized = (if length sanitized > 200 then trim (take 200 sanitized)
                            else sanitized)
           in if sanitized = [] then js ''download'' else sanitized)"

text \<open>
  The shape the result is meant to have: no two adjacent white-space characters; and,
  all together, non-empty, at most 200 code units, no illegal character, no white space
  at either end.
\<close>

definition no_space_run :: "jsstring \<Rightarrow> bool" where
  "no_space_run s = successively (\<lambda>a b. \<not> (is_space a \<and> is_space b)) s"

definition safe_filename :: "jsstring \<Rightarrow> bool" where
  "safe_filename r =
     (r \<noteq> [] \<and> length r \<le> 200 \<and> list_all (\<lambda>c. \<not> illegal c) r \<and>
      \<not> is_space (hd r) \<and> \<not> is_space (last r) \<and> no_space_run r)"

section \<open>Sample values\<close>

text \<open>Concrete inputs at which the theorems below are instantiated.\<close>

abbreviation sample_env :: env where
  "sample_env \<equiv>
     \<lparr>NEXT_PUBLIC_API_URL = None, null_read_message = js ''errorData is null'',
      to_primitive_message = js ''can not convert errorData.detail to a primitive type''\<rparr>"

abbreviation sample_format :: FormatInfo where
  "sample_format \<equiv>
     \<lparr>quality = js ''720p'', ext = js ''mp4'', size_mb = None, is_premium = False,
      format_id = js ''22''\<rparr>"

abbreviation sample_response :: AnalyzeResponse where
  "sample_response \<equiv>
     \<lparr>title = js ''My Video'', thumbnail = None, formats = [],
      original_url = js ''https://example.com/v''\<rparr>"

abbreviation sample_page :: page where
  "sample_page \<equiv>
     \<lparr>url = [], loading = False, error = None, results = Some sample_response,
      isModalOpen = False, selectedFormat = None, location_href = []\<rparr>"

section \<open>Properties of the rewarded-ad session manager\<close>

lemma ad_step_keeps_inv:
  "(rewardedAd s = None \<longrightarrow> \<not> isAdReady s) \<Longrightarrow>
   rewardedAd (ad_step onReward s e) = None \<longrightarrow> \<not> isAdReady (ad_step onReward s e)"
  by (cases e)
     (auto simp: preloadAd_def onAdLoaded_def onAdFailedToLoad_def showRewardedAd_def Let_def
           split: option.splits)

lemma ad_run_keeps_inv:
  "(rewardedAd s = None \<longrightarrow> \<not> isAdReady s) \<Longrightarrow>
   rewardedAd (ad_run onReward s es) = None \<longrightarrow> \<not> isAdReady (ad_run onReward s es)"
  unfolding ad_run_def
proof (induction es arbitrary: s)
  case Nil
  then show ?case by simp
next
  case (Cons e es)
  have "rewardedAd (ad_step onReward s e) = None \<longrightarrow> \<not> isAdReady (ad_step onReward s e)"
    using Cons.prems by (rule ad_step_keeps_inv)
  then show ?case using Cons.IH by simp
qed

text \<open>
  C6.  In the initial state, and after any sequence of preload, load-success, load-failure
  and show events, a null ad handle implies that the readiness flag is false.
\<close>

theorem C6_null_handle_not_ready:
  "rewardedAd (ad_run onReward (ad_provider_init present a) es) = None \<longrightarrow>
   \<not> isAdReady (ad_run onReward (ad_provider_init present a) es)"
  by (rule ad_run_keeps_inv) (simp add: ad_provider_init_def)

theorem C6_null_handle_not_ready_witness:
  "rewardedAd (ad_run Suc (ad_provider_init True (0::nat)) [Preload, AdFailedToLoad]) = None \<and>
   \<not> isAdReady (ad_run Suc (ad_provider_init True (0::nat)) [Preload, AdFailedToLoad])"
  using C6_null_handle_not_ready [of Suc True "0::nat" "[Preload, AdFailedToLoad]"]
  by (simp add: ad_run_def ad_provider_init_def preloadAd_def onAdFailedToLoad_def)

lemma requests_preloadAd:
  "requests (preloadAd w) = requests w + (if google_ad_platform w then 1 else 0)"
  by (simp add: requests_def preloadAd_def Let_def)

lemma isAdReady_preloadAd: "\<not> isAdReady (preloadAd w)"
  by (simp add: preloadAd_def Let_def)

lemma app_preloadAd: "app (preloadAd w) = app w"
  by (simp add: preloadAd_def Let_def)

lemma rewardedAd_preloadAd: "rewardedAd (preloadAd w) = rewardedAd w"
  by (simp add: preloadAd_def Let_def)

lemma showRewardedAd_not_ready:
  "\<not> isAdReady w \<Longrightarrow>
   showRewardedAd f w = (w\<lparr>calls := calls w @ [Alert not_ready_notice]\<rparr>, None)"
  by (simp add: showRewardedAd_def split: option.splits)

text \<open>
  C3, as stated, fails: the failure callback only clears the readiness flag.  After a
  successful load, a show, the close callback's preload and then a load failure, the ad
  object of the first load is still stored.
\<close>

theorem C3_failed_preload_counterexample:
  "rewardedAd (ad_run id (ad_provider_init True ())
      [Preload, AdLoaded (RewardedAd 1), ShowRewardedAd, AdClosed, AdFailedToLoad])
   = Some (RewardedAd 1)"
  by (simp add: ad_run_def ad_provider_init_def preloadAd_def onAdLoaded_def
        onAdFailedToLoad_def showRewardedAd_def)

lemma rewardedAd_ad_step:
  "rewardedAd (ad_step onReward s e) = (case e of AdLoaded ad \<Rightarrow> Some ad | _ \<Rightarrow> rewardedAd s)"
  by (cases e)
     (simp_all add: rewardedAd_preloadAd onAdLoaded_def onAdFailedToLoad_def showRewardedAd_def
        split: option.splits)

lemma rewardedAd_ad_run:
  "rewardedAd (ad_run onReward s es) =
     (case last_loaded es of None \<Rightarrow> rewardedAd s | Some ad \<Rightarrow> Some ad)"
  unfolding ad_run_def
proof (induction es arbitrary: s)
  case Nil
  show ?case by simp
next
  case (Cons e es)
  have "rewardedAd (foldl (ad_step onReward) s (e # es)) =
          (case last_loaded es of
             None \<Rightarrow> (case e of AdLoaded ad \<Rightarrow> Some ad | _ \<Rightarrow> rewardedAd s)
           | Some ad \<Rightarrow> Some ad)"
    unfolding foldl_Cons Cons.IH rewardedAd_ad_step ..
  also have "\<dots> = (case last_loaded (e # es) of None \<Rightarrow> rewardedAd s | Some ad \<Rightarrow> Some ad)"
    by (cases e) (simp_all split: option.splits)
  finally show ?case .
qed

text \<open>
  C3, amended.  Take any preload, any events between that call and the failure callback
  of its request, and then the failure callback.  Afterwards the readiness flag is false,
  and the callback has left the stored ad handle untouched: the stored handle is the one
  delivered by the last successful load in between, if there was one, and otherwise the
  one stored before the call.  So a handle from an earlier successful load is never
  emptied, and the handle is empty afterwards only if it was empty before the call and
  no load succeeded in between.
\<close>

theorem C3_failed_preload:
  "\<not> isAdReady (onAdFailedToLoad (ad_run onReward (preloadAd s) es)) \<and>
   rewardedAd (onAdFailedToLoad (ad_run onReward (preloadAd s) es))
     = rewardedAd (ad_run onReward (preloadAd s) es) \<and>
   rewardedAd (onAdFailedToLoad (ad_run onReward (preloadAd s) es))
     = (case last_loaded es of None \<Rightarrow> rewardedAd s | Some ad \<Rightarrow> Some ad) \<and>
   (rewardedAd s \<noteq> None \<longrightarrow>
      rewardedAd (onAdFailedToLoad (ad_run onReward (preloadAd s) es)) \<noteq> None) \<and>
   (rewardedAd (onAdFailedToLoad (ad_run onReward (preloadAd s) es)) = None \<longleftrightarrow>
      rewardedAd s = None \<and> last_loaded es = None)"
proof -
  let ?t = "onAdFailedToLoad (ad_run onReward (preloadAd s) es)"
  have ready: "\<not> isAdReady ?t" by (simp add: onAdFailedToLoad_def)
  have same: "rewardedAd ?t = rewardedAd (ad_run onReward (preloadAd s) es)"
    by (simp add: onAdFailedToLoad_def)
  have handle: "rewardedAd ?t = (case last_loaded es of None \<Rightarrow> rewardedAd s | Some ad \<Rightarrow> Some ad)"
    unfolding same by (simp add: rewardedAd_ad_run rewardedAd_preloadAd split: option.splits)
  have kept: "rewardedAd s \<noteq> None \<longrightarrow> rewardedAd ?t \<noteq> None"
    unfolding handle by (simp split: option.splits)
  have empty: "rewardedAd ?t = None \<longleftrightarrow> rewardedAd s = None \<and> last_loaded es = None"
    unfolding handle by (simp split: option.splits)
  show ?thesis using ready same handle kept empty by blast
qed

theorem C3_failed_preload_witness:
  "rewardedAd (ad_run id (ad_provider_init True ())
      [Preload, AdLoaded (RewardedAd 1), ShowRewardedAd, UserEarnedReward]) \<noteq> None \<and>
   rewardedAd (onAdFailedToLoad (ad_run id
      (preloadAd (ad_run id (ad_provider_init True ())
         [Preload, AdLoaded (RewardedAd 1), ShowRewardedAd, UserEarnedReward]))
      [AdLoaded (RewardedAd 2)])) = Some (RewardedAd 2) \<and>
   \<not> isAdReady (onAdFailedToLoad (ad_run id
      (preloadAd (ad_run id (ad_provider_init True ())
         [Preload, AdLoaded (RewardedAd 1), ShowRewardedAd, UserEarnedReward]))
      [AdLoaded (RewardedAd 2)]))"
proof -
  let ?s = "ad_run id (ad_provider_init True ())
      [Preload, AdLoaded (RewardedAd 1), ShowRewardedAd, UserEarnedReward]"
  have h: "rewardedAd ?s \<noteq> None"
    by (simp add: rewardedAd_ad_run)
  have l: "last_loaded [AdLoaded (RewardedAd 2)] = Some (RewardedAd 2)" by simp
  let ?t = "onAdFailedToLoad (ad_run id (preloadAd ?s) [AdLoaded (RewardedAd 2)])"
  from C3_failed_preload [of id ?s "[AdLoaded (RewardedAd 2)]"]
  have nr: "\<not> isAdReady ?t"
    and r: "rewardedAd ?t = (case last_loaded [AdLoaded (RewardedAd 2)] of
                              None \<Rightarrow> rewardedAd ?s | Some ad \<Rightarrow> Some ad)"
    by blast+
  have "rewardedAd ?t = Some (RewardedAd 2)"
    unfolding r by (simp only: l option.case)
  then show ?thesis using h nr by blast
qed

text \<open>
  C4.  When no handle is stored or the readiness flag is false, \<open>showRewardedAd\<close> raises
  the blocking notice (one \<open>alert\<close>) and nothing else: no callback is registered with the
  platform, \<open>show\<close> is not called, and the state that \<open>onReward\<close> acts on is untouched,
  whatever \<open>onReward\<close> is.
\<close>

theorem C4_show_without_ready_ad:
  assumes "rewardedAd s = None \<or> \<not> isAdReady s"
  shows "snd (showRewardedAd onReward s) = None \<and>
         calls (fst (showRewardedAd onReward s)) = calls s @ [Alert not_ready_notice] \<and>
         show_calls (fst (showRewardedAd onReward s)) = show_calls s \<and>
         app (fst (showRewardedAd onReward s)) = app s \<and>
         showRewardedAd onReward s = showRewardedAd onReward' s"
  using assms
  by (auto simp: showRewardedAd_def show_calls_def split: option.splits)

theorem C4_show_without_ready_ad_witness:
  "rewardedAd (ad_provider_init True (0::nat)) = None \<and>
   snd (showRewardedAd Suc (ad_provider_init True (0::nat))) = None \<and>
   calls (fst (showRewardedAd Suc (ad_provider_init True (0::nat)))) = [Alert not_ready_notice] \<and>
   app (fst (showRewardedAd Suc (ad_provider_init True (0::nat)))) = 0"
proof -
  have h: "rewardedAd (ad_provider_init True (0::nat)) = None"
    by (simp add: ad_provider_init_def)
  have c: "calls (ad_provider_init True (0::nat)) = []" "app (ad_provider_init True (0::nat)) = 0"
    by (simp_all add: ad_provider_init_def)
  from C4_show_without_ready_ad [of "ad_provider_init True (0::nat)" Suc Suc] h c
  show ?thesis by simp
qed

text \<open>
  C5.  When a handle is stored and the readiness flag is true, \<open>showRewardedAd\<close> calls
  the platform's \<open>show\<close> on that handle with two callbacks.  The earned-reward callback
  runs \<open>onReward\<close> and then one \<open>preloadAd\<close>; the closed callback runs one \<open>preloadAd\<close>
  and leaves the state of \<open>onReward\<close> alone.  Each adds exactly one platform request
  (when the platform object is present), and each leaves the readiness flag false, so
  that a later \<open>showRewardedAd\<close> only raises the notice until a request has loaded.
\<close>

theorem C5_show_ready_ad:
  assumes "rewardedAd s = Some ad" and "isAdReady s"
  shows "\<exists>cb. showRewardedAd onReward s = (s\<lparr>calls := calls s @ [Show ad]\<rparr>, Some cb) \<and>
           (\<forall>w. onUserEarnedReward cb w = preloadAd (w\<lparr>app := onReward (app w)\<rparr>)) \<and>
           (\<forall>w. onAdClosed cb w = preloadAd w) \<and>
           (\<forall>w. app (onUserEarnedReward cb w) = onReward (app w)) \<and>
           (\<forall>w. app (onAdClosed cb w) = app w) \<and>
           (\<forall>w. requests (onUserEarnedReward cb w)
                  = requests w + (if google_ad_platform w then 1 else 0)) \<and>
           (\<forall>w. requests (onAdClosed cb w)
                  = requests w + (if google_ad_platform w then 1 else 0)) \<and>
           (\<forall>w f. snd (showRewardedAd f (onUserEarnedReward cb w)) = None) \<and>
           (\<forall>w f. snd (showRewardedAd f (onAdClosed cb w)) = None)"
proof -
  let ?cb = "\<lparr>onUserEarnedReward = (\<lambda>w. preloadAd (w\<lparr>app := onReward (app w)\<rparr>)),
              onAdClosed = (\<lambda>w. preloadAd w)\<rparr>"
  have run: "showRewardedAd onReward s = (s\<lparr>calls := calls s @ [Show ad]\<rparr>, Some ?cb)"
    using assms by (simp add: showRewardedAd_def)
  have reward: "\<And>w. app (onUserEarnedReward ?cb w) = onReward (app w)"
    by (simp add: app_preloadAd)
  have closed: "\<And>w. app (onAdClosed ?cb w) = app w"
    by (simp add: app_preloadAd)
  have req1: "\<And>w. requests (onUserEarnedReward ?cb w)
                  = requests w + (if google_ad_platform w then 1 else 0)"
    by (simp add: requests_preloadAd) (simp add: requests_def)
  have req2: "\<And>w. requests (onAdClosed ?cb w)
                  = requests w + (if google_ad_platform w then 1 else 0)"
    by (simp add: requests_preloadAd)
  have again1: "\<And>w f. snd (showRewardedAd f (onUserEarnedReward ?cb w)) = None"
    by (simp add: showRewardedAd_not_ready isAdReady_preloadAd)
  have again2: "\<And>w f. snd (showRewardedAd f (onAdClosed ?cb w)) = None"
    by (simp add: showRewardedAd_not_ready isAdReady_preloadAd)
  show ?thesis
    apply (rule exI [of _ ?cb])
    using run reward closed req1 req2 again1 again2 by simp
qed

theorem C5_show_ready_ad_witness:
  "rewardedAd (onAdLoaded (RewardedAd 1) (preloadAd (ad_provider_init True (0::nat))))
     = Some (RewardedAd 1) \<and>
   isAdReady (onAdLoaded (RewardedAd 1) (preloadAd (ad_provider_init True (0::nat)))) \<and>
   (\<exists>cb. snd (showRewardedAd Suc
             (onAdLoaded (RewardedAd 1) (preloadAd (ad_provider_init True (0::nat))))) = Some cb \<and>
      app (onUserEarnedReward cb (ad_provider_init True 0)) = 1 \<and>
      app (onAdClosed cb (ad_provider_init True 0)) = 0 \<and>
      requests (onUserEarnedReward cb (ad_provider_init True 0)) = 1 \<and>
      requests (onAdClosed cb (ad_provider_init True 0)) = 1)"
proof -
  let ?s = "onAdLoaded (RewardedAd 1) (preloadAd (ad_provider_init True (0::nat)))"
  have h1: "rewardedAd ?s = Some (RewardedAd 1)" and h2: "isAdReady ?s"
    by (simp_all add: onAdLoaded_def)
  have i: "app (ad_provider_init True (0::nat)) = 0"
    "google_ad_platform (ad_provider_init True (0::nat))"
    "requests (ad_provider_init True (0::nat)) = 0"
    by (simp_all add: ad_provider_init_def requests_def)
  from C5_show_ready_ad [OF h1 h2, of Suc] obtain cb where
    cb: "showRewardedAd Suc ?s = (?s\<lparr>calls := calls ?s @ [Show (RewardedAd 1)]\<rparr>, Some cb)"
      "\<forall>w. app (onUserEarnedReward cb w) = Suc (app w)"
      "\<forall>w. app (onAdClosed cb w) = app w"
      "\<forall>w. requests (onUserEarnedReward cb w) = requests w + (if google_ad_platform w then 1 else 0)"
      "\<forall>w. requests (onAdClosed cb w) = requests w + (if google_ad_platform w then 1 else 0)"
    by blast
  have "snd (showRewardedAd Suc ?s) = Some cb" using cb(1) by simp
  then show ?thesis using h1 h2 cb(2-5) i by simp
qed

section \<open>Properties of the Unlock Gate\<close>

lemma filter_three_empty:
  "list_all (\<lambda>t. fst t = a \<or> fst t = b \<or> fst t = c) ts \<Longrightarrow>
   filter (\<lambda>t. fst t \<noteq> a \<and> fst t \<noteq> b \<and> fst t \<noteq> c) ts = []"
  by (induction ts) auto

lemma modal_inv_init: "modal_inv (modal_init n)"
  by (simp add: modal_inv_def modal_init_def)

lemma setOpen_False_closed:
  assumes "modal_inv m"
  shows "timers (setOpen False m) = [] \<and> \<not> isAdLoaded (setOpen False m) \<and>
         \<not> isOpen (setOpen False m) \<and> cleanup (setOpen False m) = None \<and>
         next_timer_id (setOpen False m) = next_timer_id m \<and>
         countdown (setOpen False m) = countdown m"
  using assms
  by (auto simp: modal_inv_def setOpen_def effect_cleanup_def clearTimer_def Let_def
        filter_three_empty split: option.splits)

lemma setOpen_True_closed:
  assumes "\<not> isOpen m" "cleanup m = None"
  shows "setOpen True m =
     m\<lparr>isOpen := True,
       timers := timers m @ [(next_timer_id m, InitTimer), (Suc (next_timer_id m), Interval),
                 (Suc (Suc (next_timer_id m)), AdLoadTimer)],
       next_timer_id := Suc (Suc (Suc (next_timer_id m))),
       cleanup := Some (next_timer_id m, Suc (next_timer_id m), Suc (Suc (next_timer_id m)))\<rparr>"
  using assms
  by (simp add: setOpen_def effect_cleanup_def effect_run_def setTimer_def Let_def)

lemma modal_inv_setOpen: "modal_inv m \<Longrightarrow> modal_inv (setOpen b m)"
proof (cases "b = isOpen m")
  case True
  assume "modal_inv m"
  then show ?thesis using True by (simp add: setOpen_def)
next
  case False
  assume inv: "modal_inv m"
  show ?thesis
  proof (cases b)
    case True
    then have closed: "\<not> isOpen m" using False by simp
    then have "cleanup m = None" "timers m = []" using inv
      by (auto simp: modal_inv_def split: option.splits)
    then show ?thesis using True closed inv
      by (simp add: setOpen_True_closed modal_inv_def)
  next
    case F: False
    then show ?thesis using setOpen_False_closed [OF inv]
      by (simp add: modal_inv_def)
  qed
qed

lemma list_all_filter_weaken: "list_all P ts \<Longrightarrow> list_all P (filter Q ts)"
  by (induction ts) auto

lemma modal_inv_fire: "modal_inv m \<Longrightarrow> modal_inv (fire i m)"
  by (auto simp: modal_inv_def fire_def clearTimer_def list_all_filter_weaken
        split: option.splits timer_callback.splits)

lemma fire_closed: "modal_inv m \<Longrightarrow> \<not> isOpen m \<Longrightarrow> fire i m = m"
  by (auto simp: modal_inv_def fire_def split: option.splits)

lemma modal_inv_run: "modal_inv m \<Longrightarrow> modal_inv (modal_run m es)"
  unfolding modal_run_def
proof (induction es arbitrary: m)
  case Nil
  then show ?case by simp
next
  case (Cons e es)
  have "modal_inv (modal_step m e)"
    using Cons.prems by (cases e) (simp_all add: modal_inv_setOpen modal_inv_fire)
  then show ?case using Cons.IH by simp
qed

lemma fires_closed:
  assumes "modal_inv m" and "\<not> isOpen m"
  shows "modal_run m (map Fire ids) = m"
  unfolding modal_run_def
  by (induction ids) (simp_all add: fire_closed [OF assms])

text \<open>
  C2.  Whenever the modal is open it renders the unlock button, and the button is
  enabled exactly when the countdown is 0 and the ad-loaded flag is set; the rendering
  reads only the current values of the two, not the order in which they were reached.
\<close>

theorem C2_unlock_enabled_iff:
  assumes "isOpen m"
  shows "\<exists>v. UnlockProModal m = Some v \<and>
           (\<not> unlock_disabled v \<longleftrightarrow> countdown m = 0 \<and> isAdLoaded m)"
  using assms by (simp add: UnlockProModal_def isUnlockable_def)

theorem C2_unlock_enabled_iff_witness:
  "isOpen (modal_run (modal_init 1) ([SetOpen True, Fire 1, Fire 3] @ replicate 15 (Fire 2))) \<and>
   (\<exists>v. UnlockProModal
          (modal_run (modal_init 1) ([SetOpen True, Fire 1, Fire 3] @ replicate 15 (Fire 2)))
        = Some v \<and> \<not> unlock_disabled v) \<and>
   isOpen (modal_run (modal_init 1) ([SetOpen True, Fire 1] @ replicate 15 (Fire 2))) \<and>
   (\<exists>v. UnlockProModal
          (modal_run (modal_init 1) ([SetOpen True, Fire 1] @ replicate 15 (Fire 2)))
        = Some v \<and> unlock_disabled v) \<and>
   isOpen (modal_run (modal_init 1) ([SetOpen True, Fire 1] @ replicate 15 (Fire 2) @ [Fire 3])) \<and>
   (\<exists>v. UnlockProModal
          (modal_run (modal_init 1) ([SetOpen True, Fire 1] @ replicate 15 (Fire 2) @ [Fire 3]))
        = Some v \<and> \<not> unlock_disabled v)"
proof -
  let ?a = "modal_run (modal_init 1) ([SetOpen True, Fire 1, Fire 3] @ replicate 15 (Fire 2))"
  let ?b = "modal_run (modal_init 1) ([SetOpen True, Fire 1] @ replicate 15 (Fire 2))"
  let ?c = "modal_run (modal_init 1) ([SetOpen True, Fire 1] @ replicate 15 (Fire 2) @ [Fire 3])"
  have a: "isOpen ?a" "countdown ?a = 0" "isAdLoaded ?a"
    by code_simp+
  have b: "isOpen ?b" "countdown ?b = 0" "\<not> isAdLoaded ?b"
    by code_simp+
  have c: "isOpen ?c" "countdown ?c = 0" "isAdLoaded ?c"
    by code_simp+
  from C2_unlock_enabled_iff [OF a(1)] a(2,3)
  have ra: "\<exists>v. UnlockProModal ?a = Some v \<and> \<not> unlock_disabled v" by auto
  from C2_unlock_enabled_iff [OF b(1)] b(2,3)
  have rb: "\<exists>v. UnlockProModal ?b = Some v \<and> unlock_disabled v" by auto
  from C2_unlock_enabled_iff [OF c(1)] c(2,3)
  have rc: "\<exists>v. UnlockProModal ?c = Some v \<and> \<not> unlock_disabled v" by auto
  show ?thesis using a(1) b(1) c(1) ra rb rc by blast
qed

text \<open>
  C9.  Take any state the modal can reach and close it.  Then no timer is pending (the
  countdown interval, the initialization delay and the ad-loaded delay are all cleared)
  and the ad-loaded flag is false; whatever timer identifiers fire afterwards, the state
  does not change; and on the next open the pending timers are exactly the three newly
  created ones, while every identifier handed out before is dead.
\<close>

theorem C9_close_cancels_timers:
  "let m = modal_step (modal_run (modal_init n) es) (SetOpen False);
       r = modal_step m (SetOpen True)
   in timers m = [] \<and> \<not> isAdLoaded m \<and>
      (\<forall>ids. modal_run m (map Fire ids) = m) \<and>
      timers r = [(next_timer_id m, InitTimer), (Suc (next_timer_id m), Interval),
                  (Suc (Suc (next_timer_id m)), AdLoadTimer)] \<and>
      (\<forall>i. i < next_timer_id m \<longrightarrow> fire i r = r)"
proof -
  define m where "m = modal_step (modal_run (modal_init n) es) (SetOpen False)"
  define r where "r = modal_step m (SetOpen True)"
  have reach: "modal_inv (modal_run (modal_init n) es)"
    by (rule modal_inv_run) (rule modal_inv_init)
  have closed: "timers m = []" "\<not> isAdLoaded m" "\<not> isOpen m" "cleanup m = None"
    using setOpen_False_closed [OF reach] by (simp_all add: m_def)
  have inv_m: "modal_inv m"
    using modal_inv_setOpen [OF reach, of False] by (simp add: m_def)
  have quiet: "\<forall>ids. modal_run m (map Fire ids) = m"
    using fires_closed [OF inv_m closed(3)] by simp
  have r_eq: "timers r = [(next_timer_id m, InitTimer), (Suc (next_timer_id m), Interval),
                  (Suc (Suc (next_timer_id m)), AdLoadTimer)]"
    using closed by (simp add: r_def setOpen_True_closed)
  have old: "\<forall>i. i < next_timer_id m \<longrightarrow> fire i r = r"
    by (simp add: fire_def r_eq)
  show ?thesis
    using closed(1,2) quiet r_eq old by (simp add: Let_def m_def r_def)
qed

theorem C9_close_cancels_timers_witness:
  "(2::nat) < next_timer_id (modal_step (modal_run (modal_init 1) [SetOpen True, Fire 3]) (SetOpen False)) \<and>
   timers (modal_step (modal_run (modal_init 1) [SetOpen True, Fire 3]) (SetOpen False)) = [] \<and>
   fire 2 (modal_step (modal_step (modal_run (modal_init 1) [SetOpen True, Fire 3]) (SetOpen False)) (SetOpen True))
     = modal_step (modal_step (modal_run (modal_init 1) [SetOpen True, Fire 3]) (SetOpen False)) (SetOpen True)"
proof -
  let ?m = "modal_step (modal_run (modal_init 1) [SetOpen True, Fire 3]) (SetOpen False)"
  have h: "(2::nat) < next_timer_id ?m"
    by code_simp
  from C9_close_cancels_timers [of 1 "[SetOpen True, Fire 3]"] h show ?thesis
    by (simp add: Let_def)
qed

section \<open>Properties of encodeURIComponent\<close>

lemma lead_not_unescaped: "is_lead c \<Longrightarrow> \<not> unescaped c"
  unfolding is_lead_def unescaped_def by simp unat_arith

lemma trail_not_unescaped: "is_trail c \<Longrightarrow> \<not> unescaped c"
  unfolding is_trail_def unescaped_def by simp unat_arith

lemma lead_not_trail: "is_lead c \<Longrightarrow> \<not> is_trail c"
  unfolding is_trail_def is_lead_def by unat_arith

lemma encodeURIComponent_Cons_ok:
  "(\<exists>r. encodeURIComponent (c # cs) = Inr r) \<longleftrightarrow>
     (if is_lead c then (case cs of [] \<Rightarrow> False
                         | d # ds \<Rightarrow> is_trail d \<and> (\<exists>r. encodeURIComponent ds = Inr r))
      else \<not> is_trail c \<and> (\<exists>r. encodeURIComponent cs = Inr r))"
  by (auto simp: lead_not_unescaped trail_not_unescaped split: sum.splits list.splits)

lemma encodeURIComponent_ok_iff:
  "(\<exists>r. encodeURIComponent s = Inr r) \<longleftrightarrow> well_formed s"
proof (induction s rule: well_formed.induct)
  case 1
  show ?case by simp
next
  case (2 c)
  show ?case unfolding encodeURIComponent_Cons_ok by simp
next
  case (3 c d ds)
  show ?case
  proof (cases "is_lead c")
    case True
    with 3 show ?thesis unfolding encodeURIComponent_Cons_ok [of c] by simp
  next
    case False
    with 3 show ?thesis unfolding encodeURIComponent_Cons_ok [of c] by simp
  qed
qed

lemma encodeURIComponent_throws:
  "\<not> well_formed s \<Longrightarrow> encodeURIComponent s = Inl URIError"
proof -
  assume "\<not> well_formed s"
  then have "\<nexists>r. encodeURIComponent s = Inr r"
    by (simp add: encodeURIComponent_ok_iff)
  then obtain x where "encodeURIComponent s = Inl x"
    by (cases "encodeURIComponent s") auto
  then show ?thesis by (cases x) simp
qed

lemma hex_digit_unescaped: "n < 16 \<Longrightarrow> unescaped (hex_digit n)"
proof -
  assume "n < 16"
  then have "n \<in> {0, 1, 2, 3, 4, 5, 6, 7, 8, 9, 10, 11, 12, 13, 14, 15}"
    by simp arith
  then show ?thesis
    by (auto simp: hex_digit_def unescaped_def)
qed

lemma utf8_octets: "n < 0x110000 \<Longrightarrow> b \<in> set (utf8 n) \<Longrightarrow> b < 256"
  by (auto simp: utf8_def split: if_splits)

lemma percent_safe: "b < 256 \<Longrightarrow> c \<in> set (percent b) \<Longrightarrow> uri_safe c"
proof -
  assume b: "b < 256" and c: "c \<in> set (percent b)"
  have "b div 16 < 16" "b mod 16 < 16" using b by auto
  then have "unescaped (hex_digit (b div 16))" "unescaped (hex_digit (b mod 16))"
    by (simp_all add: hex_digit_unescaped)
  then show ?thesis using c by (auto simp: percent_def uri_safe_def)
qed

lemma escape_safe: "n < 0x110000 \<Longrightarrow> c \<in> set (escape n) \<Longrightarrow> uri_safe c"
  by (auto simp: escape_def dest: utf8_octets percent_safe)

lemma code_point_pair_bound: "is_lead c \<Longrightarrow> is_trail d \<Longrightarrow> code_point_pair c d < 0x110000"
proof -
  assume "is_lead c" and "is_trail d"
  then have c: "unat c - 0xD800 \<le> 0x3FF" and d: "unat d - 0xDC00 \<le> 0x3FF"
    by (auto simp: is_lead_def is_trail_def word_le_nat_alt)
  have "(unat c - 0xD800) * 0x400 \<le> 0x3FF * 0x400"
    using c by (rule mult_le_mono1)
  then show ?thesis using d unfolding code_point_pair_def by simp
qed

lemma unat_code_unit_bound: "unat (c :: code_unit) < 0x110000"
  using unsigned_less [of c, where ?'a = nat] by simp

lemma encodeURIComponent_safe:
  "encodeURIComponent s = Inr r \<Longrightarrow> c \<in> set r \<Longrightarrow> uri_safe c"
proof (induction s arbitrary: r rule: encodeURIComponent.induct)
  case 1
  then show ?case by simp
next
  case (2 a cs)
  show ?case
  proof (cases "unescaped a")
    case True
    then obtain r' where r': "encodeURIComponent cs = Inr r'" "r = a # r'"
      using "2.prems"(1) by (auto split: sum.splits)
    then show ?thesis using "2.IH"(1) [OF True r'(1)] "2.prems"(2) True
      by (auto simp: uri_safe_def)
  next
    case nu: False
    show ?thesis
    proof (cases "is_lead a")
      case True
      then obtain d ds r' where d: "cs = d # ds" "is_trail d"
        "encodeURIComponent ds = Inr r'" "r = escape (code_point_pair a d) @ r'"
        using "2.prems"(1) nu by (auto split: sum.splits list.splits if_splits)
      have "c \<in> set (escape (code_point_pair a d)) \<or> c \<in> set r'"
        using "2.prems"(2) d(4) by auto
      then show ?thesis
        using "2.IH"(2) [OF nu True d(1) d(2) d(3)]
          escape_safe [OF code_point_pair_bound [OF True d(2)]] by blast
    next
      case nl: False
      then have nt: "\<not> is_trail a" using "2.prems"(1) nu by (auto split: if_splits)
      then obtain r' where r': "encodeURIComponent cs = Inr r'" "r = escape (unat a) @ r'"
        using "2.prems"(1) nu nl by (auto split: sum.splits)
      have "c \<in> set (escape (unat a)) \<or> c \<in> set r'"
        using "2.prems"(2) r'(2) by auto
      then show ?thesis
        using "2.IH"(3) [OF nu nl nt r'(1)] escape_safe [OF unat_code_unit_bound] by blast
    qed
  qed
qed

section \<open>Properties of the Page Controller\<close>

lemma encodeURIComponent_list_all:
  "encodeURIComponent s = Inr r \<Longrightarrow> list_all uri_safe r"
  by (simp add: list_all_iff encodeURIComponent_safe)

text \<open>
  C8, as stated, fails: \<open>encodeURIComponent\<close> throws \<open>URIError\<close> on a string with an
  unpaired surrogate code unit, and then \<open>_handleDownload\<close> navigates nowhere.  Here the
  title of the analysis result is the single lead surrogate U+D83D.
\<close>

theorem C8_download_url_counterexample:
  "handleDownload
     \<lparr>NEXT_PUBLIC_API_URL = None, null_read_message = [], to_primitive_message = []\<rparr>
     \<lparr>quality = js ''720p'', ext = js ''mp4'', size_mb = None, is_premium = False,
      format_id = js ''22''\<rparr>
     \<lparr>url = [], loading = False, error = None,
      results = Some \<lparr>title = [0xD83D], thumbnail = None, formats = [],
                       original_url = js ''https://example.com/v''\<rparr>,
      isModalOpen = False, selectedFormat = None, location_href = []\<rparr>
   = Inl URIError"
  by (simp add: handleDownload_def js_def unescaped_def is_lead_def is_trail_def
        split: sum.splits)

text \<open>
  C8, amended.  When an analysis result is held and the original URL, the format
  identifier, the title, the extension and the quality have no unpaired surrogate, the
  download operation appends exactly one navigation, to the address made of the backend
  base, \<open>/api/download\<close> and the five parameters \<open>url\<close>, \<open>format_id\<close>, \<open>title\<close>, \<open>ext\<close>
  and \<open>quality\<close>, in this order, each holding the \<open>encodeURIComponent\<close> of its field; an
  encoded field consists of unreserved characters and percent escapes only.
\<close>

theorem C8_download_url:
  assumes "results p = Some r"
    and "well_formed (original_url r)" and "well_formed (format_id f)"
    and "well_formed (title r)" and "well_formed (ext f)" and "well_formed (quality f)"
  shows "\<exists>u i t x q.
      encodeURIComponent (original_url r) = Inr u \<and>
      encodeURIComponent (format_id f) = Inr i \<and>
      encodeURIComponent (title r) = Inr t \<and>
      encodeURIComponent (ext f) = Inr x \<and>
      encodeURIComponent (quality f) = Inr q \<and>
      list_all uri_safe (u @ i @ t @ x @ q) \<and>
      handleDownload e f p =
        Inr (p\<lparr>location_href := location_href p @
               [API_URL e @ js ''/api/download?url='' @ u @ js ''&format_id='' @ i @
                js ''&title='' @ t @ js ''&ext='' @ x @ js ''&quality='' @ q]\<rparr>)"
proof -
  obtain u where u: "encodeURIComponent (original_url r) = Inr u"
    using assms(2) encodeURIComponent_ok_iff by blast
  obtain i where i: "encodeURIComponent (format_id f) = Inr i"
    using assms(3) encodeURIComponent_ok_iff by blast
  obtain t where t: "encodeURIComponent (title r) = Inr t"
    using assms(4) encodeURIComponent_ok_iff by blast
  obtain x where x: "encodeURIComponent (ext f) = Inr x"
    using assms(5) encodeURIComponent_ok_iff by blast
  obtain q where q: "encodeURIComponent (quality f) = Inr q"
    using assms(6) encodeURIComponent_ok_iff by blast
  have safe: "list_all uri_safe (u @ i @ t @ x @ q)"
    using u i t x q by (simp add: encodeURIComponent_list_all)
  have "handleDownload e f p =
        Inr (p\<lparr>location_href := location_href p @
               [API_URL e @ js ''/api/download?url='' @ u @ js ''&format_id='' @ i @
                js ''&title='' @ t @ js ''&ext='' @ x @ js ''&quality='' @ q]\<rparr>)"
    by (simp add: handleDownload_def assms(1) u i t x q)
  with u i t x q safe show ?thesis by blast
qed

theorem C8_download_url_witness:
  "results sample_page = Some sample_response \<and>
   well_formed (original_url sample_response) \<and> well_formed (format_id sample_format) \<and>
   well_formed (title sample_response) \<and> well_formed (ext sample_format) \<and>
   well_formed (quality sample_format) \<and>
   handleDownload sample_env sample_format sample_page =
     Inr (sample_page\<lparr>location_href :=
       [js ''http://localhost:8000/api/download?url=https%3A%2F%2Fexample.com%2Fv&format_id=22&title=My%20Video&ext=mp4&quality=720p'']\<rparr>)"
proof -
  have h: "results sample_page = Some sample_response" by simp
  have w: "well_formed (original_url sample_response)" "well_formed (format_id sample_format)"
    "well_formed (title sample_response)" "well_formed (ext sample_format)"
    "well_formed (quality sample_format)"
    by code_simp+
  have enc: "encodeURIComponent (original_url sample_response) = Inr (js ''https%3A%2F%2Fexample.com%2Fv'')"
    "encodeURIComponent (format_id sample_format) = Inr (js ''22'')"
    "encodeURIComponent (title sample_response) = Inr (js ''My%20Video'')"
    "encodeURIComponent (ext sample_format) = Inr (js ''mp4'')"
    "encodeURIComponent (quality sample_format) = Inr (js ''720p'')"
    by code_simp+
  from C8_download_url [OF h w, of sample_env] obtain u i t x q where
    r: "encodeURIComponent (original_url sample_response) = Inr u"
      "encodeURIComponent (format_id sample_format) = Inr i"
      "encodeURIComponent (title sample_response) = Inr t"
      "encodeURIComponent (ext sample_format) = Inr x"
      "encodeURIComponent (quality sample_format) = Inr q"
      "handleDownload sample_env sample_format sample_page =
        Inr (sample_page\<lparr>location_href := location_href sample_page @
               [API_URL sample_env @ js ''/api/download?url='' @ u @ js ''&format_id='' @ i @
                js ''&title='' @ t @ js ''&ext='' @ x @ js ''&quality='' @ q]\<rparr>)"
    by blast
  have v: "u = js ''https%3A%2F%2Fexample.com%2Fv''" "i = js ''22''" "t = js ''My%20Video''"
    "x = js ''mp4''" "q = js ''720p''"
    using r(1-5) enc by simp_all
  have "handleDownload sample_env sample_format sample_page =
     Inr (sample_page\<lparr>location_href :=
       [js ''http://localhost:8000/api/download?url=https%3A%2F%2Fexample.com%2Fv&format_id=22&title=My%20Video&ext=mp4&quality=720p'']\<rparr>)"
    unfolding r(6) v by (simp add: API_URL_def js_def)
  then show ?thesis using h w by blast
qed

lemma handleDownload_keeps_modal:
  "handleDownload e f p = Inr p' \<Longrightarrow>
   isModalOpen p' = isModalOpen p \<and> selectedFormat p' = selectedFormat p"
  by (auto simp: handleDownload_def split: option.splits sum.splits)

text \<open>
  C1.  A format that is not premium goes straight to the download operation, and
  whatever that does, the modal flag and the staged format stay as they were.  A premium
  format opens the modal with that format staged, and nothing is navigated to.
\<close>

theorem C1_format_click:
  "(\<not> is_premium f \<longrightarrow>
      handleFormatClick e f p = handleDownload e f p \<and>
      (\<forall>p'. handleFormatClick e f p = Inr p' \<longrightarrow>
            isModalOpen p' = isModalOpen p \<and> selectedFormat p' = selectedFormat p)) \<and>
   (is_premium f \<longrightarrow>
      (\<exists>p'. handleFormatClick e f p = Inr p' \<and> isModalOpen p' \<and>
            selectedFormat p' = Some f \<and> location_href p' = location_href p))"
  by (simp add: handleFormatClick_def handleDownload_keeps_modal)

theorem C1_format_click_witness:
  "\<not> is_premium sample_format \<and>
   handleFormatClick sample_env sample_format sample_page
     = handleDownload sample_env sample_format sample_page \<and>
   is_premium (sample_format\<lparr>is_premium := True\<rparr>) \<and>
   (\<exists>p'. handleFormatClick sample_env (sample_format\<lparr>is_premium := True\<rparr>) sample_page = Inr p' \<and>
         isModalOpen p' \<and> selectedFormat p' = Some (sample_format\<lparr>is_premium := True\<rparr>) \<and>
         location_href p' = [])"
proof -
  have h1: "\<not> is_premium sample_format" by simp
  have h2: "is_premium (sample_format\<lparr>is_premium := True\<rparr>)" by simp
  have l: "location_href sample_page = []" by simp
  from C1_format_click [of sample_format sample_env sample_page] h1
  have a: "handleFormatClick sample_env sample_format sample_page
     = handleDownload sample_env sample_format sample_page" by blast
  from C1_format_click [of "sample_format\<lparr>is_premium := True\<rparr>" sample_env sample_page] h2
  have b: "\<exists>p'. handleFormatClick sample_env (sample_format\<lparr>is_premium := True\<rparr>) sample_page = Inr p' \<and>
         isModalOpen p' \<and> selectedFormat p' = Some (sample_format\<lparr>is_premium := True\<rparr>) \<and>
         location_href p' = location_href sample_page" by blast
  show ?thesis using h1 h2 a b unfolding l by blast
qed

lemma connect_error_message_nonempty: "connect_error_message \<noteq> []"
  by (simp add: connect_error_message_def js_def)

lemma unknown_error_message_nonempty: "unknown_error_message \<noteq> []"
  by (simp add: unknown_error_message_def js_def)

text \<open>
  C7, as stated, fails in two places.  When the request itself fails, \<open>fetch\<close> rejects
  with an \<open>Error\<close> that carries the browser's own message, and the \<open>catch\<close> block shows
  that message, not the page's connectivity message.  And when a response that is not ok
  has the JSON body \<open>null\<close>, which has no \<open>detail\<close> field, reading \<open>errorData.detail\<close>
  throws a \<open>TypeError\<close>, and its message is shown, not the fallback.
\<close>

theorem C7_analysis_errors_counterexample:
  "displayed_error (handleFetch sample_env (Rejected (ErrorObject (js ''Failed to fetch''))) sample_page)
     = Some (js ''Failed to fetch'') \<and>
   displayed_error (handleFetch sample_env (Rejected (ErrorObject (js ''Failed to fetch''))) sample_page)
     \<noteq> Some connect_error_message \<and>
   displayed_error (handleFetch sample_env (NotOk (Inr JNull)) sample_page)
     = Some (js ''errorData is null'') \<and>
   displayed_error (handleFetch sample_env (NotOk (Inr JNull)) sample_page)
     \<noteq> Some unknown_error_message"
  by (simp add: displayed_error_def handleFetch_def handleFetch_try_def get_detail_def
        connect_error_message_def unknown_error_message_def js_def)

lemma displayed_error_thrown:
  "handleFetch_try e outcome = Inl (ErrorObject m) \<Longrightarrow>
   displayed_error (handleFetch e outcome p) = Some (if m = [] then connect_error_message else m)"
  by (simp add: displayed_error_def handleFetch_def connect_error_message_nonempty)

text \<open>
  C7, amended.  A response that is not ok and whose body has a non-empty string \<open>detail\<close>
  shows exactly that string (so \<open>bad url\<close> for \<open>{"detail":"bad url"}\<close>).  One whose body
  is JSON other than \<open>null\<close> and has no \<open>detail\<close> field shows the fallback
  \<open>An unknown error occurred.\<close>  One whose body is \<open>null\<close> (reading \<open>detail\<close> throws) or
  is not JSON (\<open>json()\<close> throws) shows the message of the \<open>Error\<close> thrown.  A rejected
  request shows the message of the \<open>Error\<close> that \<open>fetch\<close> rejected with.  In each of
  these three cases the connectivity message
  \<open>Failed to connect to the backend. Is it running?\<close> stands in for an empty message; it
  is also shown when the rejection value is neither an \<open>Error\<close> nor a string.
\<close>

theorem C7_analysis_errors:
  "(map_of (rev kvs) (js ''detail'') = Some (JString d) \<and> d \<noteq> [] \<longrightarrow>
      displayed_error (handleFetch e (NotOk (Inr (JObject kvs))) p) = Some d) \<and>
   (errorData \<noteq> JNull \<and>
    (\<forall>fields. errorData = JObject fields \<longrightarrow> map_of (rev fields) (js ''detail'') = None) \<longrightarrow>
      displayed_error (handleFetch e (NotOk (Inr errorData)) p) = Some unknown_error_message) \<and>
   displayed_error (handleFetch e (NotOk (Inr JNull)) p)
     = Some (if null_read_message e = [] then connect_error_message else null_read_message e) \<and>
   displayed_error (handleFetch e (NotOk (Inl (ErrorObject m))) p)
     = Some (if m = [] then connect_error_message else m) \<and>
   displayed_error (handleFetch e (Rejected (ErrorObject m)) p)
     = Some (if m = [] then connect_error_message else m) \<and>
   displayed_error (handleFetch e (Rejected ThrownOther) p) = Some connect_error_message"
proof -
  have a: "map_of (rev kvs) (js ''detail'') = Some (JString d) \<and> d \<noteq> [] \<longrightarrow>
      displayed_error (handleFetch e (NotOk (Inr (JObject kvs))) p) = Some d"
    by (simp add: displayed_error_def handleFetch_def handleFetch_try_def get_detail_def)
  have b: "errorData \<noteq> JNull \<and>
    (\<forall>fields. errorData = JObject fields \<longrightarrow> map_of (rev fields) (js ''detail'') = None) \<longrightarrow>
      displayed_error (handleFetch e (NotOk (Inr errorData)) p) = Some unknown_error_message"
  proof
    assume h: "errorData \<noteq> JNull \<and>
      (\<forall>fields. errorData = JObject fields \<longrightarrow> map_of (rev fields) (js ''detail'') = None)"
    then have "get_detail (null_read_message e) errorData = Inr None"
      by (cases errorData) (simp_all add: get_detail_def)
    then show "displayed_error (handleFetch e (NotOk (Inr errorData)) p)
                 = Some unknown_error_message"
      by (simp add: displayed_error_def handleFetch_def handleFetch_try_def
            unknown_error_message_nonempty)
  qed
  have c: "displayed_error (handleFetch e (NotOk (Inr JNull)) p)
     = Some (if null_read_message e = [] then connect_error_message else null_read_message e)"
    by (rule displayed_error_thrown) (simp add: handleFetch_try_def get_detail_def)
  have d: "displayed_error (handleFetch e (NotOk (Inl (ErrorObject m))) p)
     = Some (if m = [] then connect_error_message else m)"
    by (rule displayed_error_thrown) (simp add: handleFetch_try_def)
  have f: "displayed_error (handleFetch e (Rejected (ErrorObject m)) p)
     = Some (if m = [] then connect_error_message else m)"
    by (rule displayed_error_thrown) (simp add: handleFetch_try_def)
  have g: "displayed_error (handleFetch e (Rejected ThrownOther) p) = Some connect_error_message"
    by (simp add: displayed_error_def handleFetch_def handleFetch_try_def
          connect_error_message_nonempty)
  show ?thesis using a b c d f g by blast
qed

theorem C7_analysis_errors_witness:
  "map_of (rev [(js ''detail'', JString (js ''bad url''))]) (js ''detail'')
     = Some (JString (js ''bad url'')) \<and> js ''bad url'' \<noteq> [] \<and>
   displayed_error (handleFetch sample_env
      (NotOk (Inr (JObject [(js ''detail'', JString (js ''bad url''))]))) sample_page)
     = Some (js ''bad url'') \<and>
   JObject [(js ''message'', JString (js ''bad url''))] \<noteq> JNull \<and>
   map_of (rev [(js ''message'', JString (js ''bad url''))]) (js ''detail'') = None \<and>
   displayed_error (handleFetch sample_env
      (NotOk (Inr (JObject [(js ''message'', JString (js ''bad url''))]))) sample_page)
     = Some (js ''An unknown error occurred.'')"
proof -
  have h1: "map_of (rev [(js ''detail'', JString (js ''bad url''))]) (js ''detail'')
     = Some (JString (js ''bad url'')) \<and> js ''bad url'' \<noteq> []"
    by (simp add: js_def)
  have h2: "JObject [(js ''message'', JString (js ''bad url''))] \<noteq> JNull" by simp
  have h3: "map_of (rev [(js ''message'', JString (js ''bad url''))]) (js ''detail'') = None"
    by (simp add: js_def)
  have h4: "\<forall>fields. JObject [(js ''message'', JString (js ''bad url''))] = JObject fields \<longrightarrow>
              map_of (rev fields) (js ''detail'') = None"
    using h3 by auto
  from C7_analysis_errors [where kvs = "[(js ''detail'', JString (js ''bad url''))]"
      and d = "js ''bad url''" and e = sample_env
      and errorData = "JObject [(js ''message'', JString (js ''bad url''))]"
      and p = sample_page] h1 h2 h3 h4
  show ?thesis unfolding unknown_error_message_def by blast
qed

section \<open>Properties of sanitizeFilename\<close>

lemma successively_dropWhile_keep:
  "successively P xs \<Longrightarrow> successively P (dropWhile Q xs)"
  by (induction xs) (auto simp: successively_Cons)

lemma successively_take_keep:
  assumes "successively P xs"
  shows "successively P (take n xs)"
proof -
  have "successively P (take n xs @ drop n xs)" using assms by simp
  then show ?thesis unfolding successively_append_iff by simp
qed

lemma no_space_run_trim: "no_space_run s \<Longrightarrow> no_space_run (trim s)"
  unfolding no_space_run_def trim_def
  by (simp add: successively_dropWhile_keep conj_commute)

lemma no_space_run_take: "no_space_run s \<Longrightarrow> no_space_run (take n s)"
  unfolding no_space_run_def by (rule successively_take_keep)

lemma set_trim: "set (trim s) \<subseteq> set s"
proof
  fix c assume "c \<in> set (trim s)"
  then have "c \<in> set (dropWhile is_space (rev (dropWhile is_space s)))"
    by (simp add: trim_def)
  then have "c \<in> set (rev (dropWhile is_space s))" by (rule set_dropWhileD)
  then have "c \<in> set (dropWhile is_space s)" by simp
  then show "c \<in> set s" by (rule set_dropWhileD)
qed

lemma length_trim: "length (trim s) \<le> length s"
proof -
  have "length (trim s) = length (dropWhile is_space (rev (dropWhile is_space s)))"
    unfolding trim_def by (simp only: length_rev)
  also have "\<dots> \<le> length (rev (dropWhile is_space s))"
    by (rule length_dropWhile_le)
  also have "\<dots> = length (dropWhile is_space s)" by (simp only: length_rev)
  also have "\<dots> \<le> length s" by (rule length_dropWhile_le)
  finally show ?thesis .
qed

lemma trim_prefix:
  "dropWhile is_space s = trim s @ rev (takeWhile is_space (rev (dropWhile is_space s)))"
proof -
  let ?t = "dropWhile is_space s"
  have "rev (takeWhile is_space (rev ?t) @ dropWhile is_space (rev ?t)) = rev (rev ?t)"
    by (simp only: takeWhile_dropWhile_id)
  then have "rev (dropWhile is_space (rev ?t)) @ rev (takeWhile is_space (rev ?t)) = ?t"
    by (simp only: rev_append rev_rev_ident)
  then show ?thesis unfolding trim_def by (rule sym)
qed

lemma hd_trim: "trim s \<noteq> [] \<Longrightarrow> \<not> is_space (hd (trim s))"
proof -
  assume ne: "trim s \<noteq> []"
  let ?t = "dropWhile is_space s"
  have "hd ?t = hd (trim s)"
    using ne trim_prefix [of s] by (metis hd_append2)
  moreover have "?t \<noteq> []" using ne trim_prefix [of s] by (metis append_is_Nil_conv)
  ultimately show ?thesis using hd_dropWhile [of is_space s] by simp
qed

lemma last_trim: "trim s \<noteq> [] \<Longrightarrow> \<not> is_space (last (trim s))"
proof -
  assume ne: "trim s \<noteq> []"
  let ?u = "dropWhile is_space (rev (dropWhile is_space s))"
  have u: "?u \<noteq> []" using ne by (simp add: trim_def)
  have "last (trim s) = hd ?u" unfolding trim_def using u by (simp add: last_rev)
  then show ?thesis using hd_dropWhile [OF u] by simp
qed

lemma trim_nonempty: "s \<noteq> [] \<Longrightarrow> \<not> is_space (hd s) \<Longrightarrow> trim s \<noteq> []"
proof -
  assume s: "s \<noteq> []" and h: "\<not> is_space (hd s)"
  have d: "dropWhile is_space s = s" using s h by (cases s) auto
  have "hd s \<in> set (rev s)" using s by simp
  then have "dropWhile is_space (rev s) \<noteq> []" using h by auto
  then show ?thesis by (simp add: trim_def d)
qed

lemma set_collapse_spaces: "set (collapse_spaces s) \<subseteq> insert 0x20 (set s)"
proof (induction s rule: collapse_spaces.induct)
  case 1
  show ?case by simp
next
  case (2 c cs)
  show ?case
  proof (cases "is_space c")
    case True
    have "set (dropWhile is_space cs) \<subseteq> set cs" by (auto dest: set_dropWhileD)
    then show ?thesis using 2(1) [OF True] True by auto
  next
    case False
    then show ?thesis using 2(2) [OF False] by auto
  qed
qed

lemma hd_collapse_spaces:
  "s \<noteq> [] \<Longrightarrow> \<not> is_space (hd s) \<Longrightarrow> collapse_spaces s \<noteq> [] \<and> hd (collapse_spaces s) = hd s"
  by (cases s) auto

lemma no_space_run_collapse: "no_space_run (collapse_spaces s)"
proof (induction s rule: collapse_spaces.induct)
  case 1
  show ?case by (simp add: no_space_run_def)
next
  case (2 c cs)
  show ?case
  proof (cases "is_space c")
    case True
    let ?d = "dropWhile is_space cs"
    have ih: "no_space_run (collapse_spaces ?d)" using 2(1) [OF True] .
    have "collapse_spaces ?d = [] \<or> \<not> is_space (hd (collapse_spaces ?d))"
    proof (cases "?d = []")
      case True
      then have "collapse_spaces ?d = []" by (simp only: collapse_spaces.simps(1))
      then show ?thesis by (rule disjI1)
    next
      case False
      then have "\<not> is_space (hd ?d)" by (rule hd_dropWhile)
      then show ?thesis using hd_collapse_spaces [OF False] by simp
    qed
    then show ?thesis using ih True
      by (auto simp: no_space_run_def successively_Cons)
  next
    case False
    then show ?thesis using 2(2) [OF False]
      by (auto simp: no_space_run_def successively_Cons)
  qed
qed

lemma space_not_illegal: "\<not> illegal 0x20"
  by (simp add: illegal_def)

lemma safe_filename_untitled: "safe_filename (js ''untitled'')"
  by code_simp

lemma safe_filename_download: "safe_filename (js ''download'')"
  by code_simp

lemma cleaned_legal:
  "c \<in> set (trim (collapse_spaces (filter (\<lambda>c. \<not> illegal c) name))) \<Longrightarrow> \<not> illegal c"
proof -
  assume "c \<in> set (trim (collapse_spaces (filter (\<lambda>c. \<not> illegal c) name)))"
  then have "c \<in> set (collapse_spaces (filter (\<lambda>c. \<not> illegal c) name))"
    using set_trim by blast
  then have "c = 0x20 \<or> c \<in> set (filter (\<lambda>c. \<not> illegal c) name)"
    using set_collapse_spaces by blast
  then show ?thesis using space_not_illegal by auto
qed

lemma shortened_safe:
  assumes ne: "s \<noteq> []" and hd: "\<not> is_space (hd s)" and run: "no_space_run s"
    and legal: "\<forall>c\<in>set s. \<not> illegal c" and long: "length s > 200"
  shows "safe_filename (trim (take 200 s))"
proof -
  let ?t = "take 200 s"
  have t: "?t \<noteq> []" using ne by simp
  have "hd ?t = hd s" using ne by (cases s) simp_all
  then have r: "trim ?t \<noteq> []" using trim_nonempty [OF t] hd by simp
  have "length (trim ?t) \<le> length ?t" by (rule length_trim)
  then have len: "length (trim ?t) \<le> 200" by simp
  have "set (trim ?t) \<subseteq> set s" using set_trim [of ?t] set_take_subset [of 200 s] by blast
  then have leg: "list_all (\<lambda>c. \<not> illegal c) (trim ?t)"
    using legal by (auto simp: list_all_iff)
  have "no_space_run (trim ?t)"
    using run by (simp add: no_space_run_trim no_space_run_take)
  then show ?thesis
    unfolding safe_filename_def using r len leg hd_trim [OF r] last_trim [OF r] by blast
qed

lemma sanitizeFilename_safe: "safe_filename (sanitizeFilename name)"
proof (cases "name = []")
  case True
  then show ?thesis by (simp add: sanitizeFilename_def safe_filename_untitled)
next
  case False
  define s where "s = trim (collapse_spaces (filter (\<lambda>c. \<not> illegal c) name))"
  define r where "r = (if length s > 200 then trim (take 200 s) else s)"
  have res: "sanitizeFilename name = (if r = [] then js ''download'' else r)"
    using False by (simp add: sanitizeFilename_def Let_def s_def r_def)
  have legal: "\<forall>c\<in>set s. \<not> illegal c" unfolding s_def using cleaned_legal by blast
  have run: "no_space_run s" unfolding s_def by (simp add: no_space_run_trim no_space_run_collapse)
  have ends: "s \<noteq> [] \<Longrightarrow> \<not> is_space (hd s) \<and> \<not> is_space (last s)"
    unfolding s_def using hd_trim last_trim by blast
  have "r = [] \<or> safe_filename r"
  proof (cases "length s > 200")
    case True
    then have "s \<noteq> []" by auto
    then have "safe_filename (trim (take 200 s))"
      using shortened_safe ends run legal True by blast
    then show ?thesis using True by (simp add: r_def)
  next
    case short: False
    then have "r = s" by (simp add: r_def)
    moreover have "s \<noteq> [] \<Longrightarrow> safe_filename s"
      unfolding safe_filename_def using ends run legal short by (auto simp: list_all_iff)
    ultimately show ?thesis by blast
  qed
  then show ?thesis unfolding res using safe_filename_download by auto
qed

lemma sanitizeFilename_all_illegal:
  assumes "name \<noteq> []" and "\<forall>c\<in>set name. illegal c"
  shows "sanitizeFilename name = js ''download''"
proof -
  have "filter (\<lambda>c. \<not> illegal c) name = []" using assms(2) by (simp add: filter_empty_conv)
  then show ?thesis using assms(1) by (simp add: sanitizeFilename_def trim_def)
qed

text \<open>
  C10.  For every input, \<open>sanitizeFilename\<close> returns a non-empty string of at most 200
  code units, none of which is one of \<open>< > : " / \ | ? *\<close> or a control character
  U+0000 to U+001F; it neither starts nor ends with white space and has no two
  adjacent white-space characters.  The empty input gives \<open>untitled\<close>; a non-empty input
  all of whose characters are illegal gives \<open>download\<close>.
\<close>

theorem C10_sanitizeFilename:
  "sanitizeFilename name \<noteq> [] \<and>
   length (sanitizeFilename name) \<le> 200 \<and>
   (\<forall>c\<in>set (sanitizeFilename name). \<not> illegal c) \<and>
   \<not> is_space (hd (sanitizeFilename name)) \<and>
   \<not> is_space (last (sanitizeFilename name)) \<and>
   no_space_run (sanitizeFilename name) \<and>
   sanitizeFilename [] = js ''untitled'' \<and>
   (name \<noteq> [] \<and> (\<forall>c\<in>set name. illegal c) \<longrightarrow> sanitizeFilename name = js ''download'')"
proof -
  have "safe_filename (sanitizeFilename name)" by (rule sanitizeFilename_safe)
  moreover have "sanitizeFilename [] = js ''untitled''" by (simp add: sanitizeFilename_def)
  ultimately show ?thesis
    using sanitizeFilename_all_illegal [of name]
    unfolding safe_filename_def by (simp add: list_all_iff)
qed

theorem C10_sanitizeFilename_witness:
  "js ''<>:?'' \<noteq> [] \<and> list_all illegal (js ''<>:?'') \<and>
   sanitizeFilename (js ''<>:?'') = js ''download'' \<and>
   \<not> is_space (hd (sanitizeFilename (js ''<>:?''))) \<and>
   length (sanitizeFilename (js ''<>:?'')) \<le> 200"
proof -
  have h1: "js ''<>:?'' \<noteq> []" by (simp add: js_def)
  have l: "list_all illegal (js ''<>:?'')" by code_simp
  then have h2: "\<forall>c\<in>set (js ''<>:?''). illegal c" by (simp only: list_all_iff)
  from C10_sanitizeFilename [of "js ''<>:?''"] h1 h2 l show ?thesis
    by blast
qed

lemma sanitizeFilename_example:
  "sanitizeFilename (js ''  My  <Video>: part 1/2  '') = js ''My Video part 12''"
  by code_simp

end
